theory Spec2Isabelle
  imports Complex_Main
begin

section \<open>The OTC pool (otc\_pool.py)\<close>

text \<open>
  The pool is a Python object with five attributes. Amounts and prices are Python floats;
  they are modelled by \<^typ>\<open>real\<close>, so the arithmetic below is exact (rounding, infinities
  and NaN are outside the model). Offer ids are Python integers, modelled by \<^typ>\<open>int\<close>.
  The two clock reads of \<open>add_offer\<close> and the one of \<open>simulate_matching\<close> are an
  explicit argument \<open>now\<close>.

  An operation can end in three ways: it returns a value, it raises an exception, or it
  never returns because it waits for the lock. The first two are the constructors of
  \<open>outcome\<close>; the third is the value \<open>None\<close>.
\<close>

datatype py_error = ValueError | ZeroDivisionError

datatype 'a outcome = Returns 'a | Raises py_error

datatype status = ACTIVE | CANCELLED | COMPLETED

record offer =
  offer_id :: int
  offer_type :: string
  sol_amount :: real
  price_per_sol :: real
  total_usdc :: real
  user_id :: string
  status :: status
  timestamp :: real
  created_at :: real

record pool =
  offers :: "int \<rightharpoonup> offer"
  active_offers :: "int list"
  completed_offers :: "int list"
  lock :: bool
  next_id :: int

text \<open>\<open>OTCPool.__init__\<close>: the lock of a new pool is free.\<close>

definition init_pool :: pool where
  "init_pool = \<lparr>offers = Map.empty, active_offers = [], completed_offers = [],
     lock = False, next_id = 1\<rparr>"

subsection \<open>The lock\<close>

text \<open>
  \<open>self.lock\<close> is a \<open>threading.Lock\<close>, which is not reentrant: acquiring it while it is
  held waits until it is released. Inside one operation nobody else releases it, so the
  wait never ends. \<open>with self.lock:\<close> releases the lock when the block is left, by a
  return as well as by an exception.
\<close>

definition acquire :: "pool \<Rightarrow> pool option" where
  "acquire p = (if lock p then None else Some (p\<lparr>lock := True\<rparr>))"

definition release :: "pool \<Rightarrow> pool" where
  "release p = p\<lparr>lock := False\<rparr>"

definition with_lock ::
  "(pool \<Rightarrow> ('a outcome \<times> pool) option) \<Rightarrow> pool \<Rightarrow> ('a outcome \<times> pool) option" where
  "with_lock body p =
     (case acquire p of
        None \<Rightarrow> None
      | Some p1 \<Rightarrow>
          (case body p1 of
             None \<Rightarrow> None
           | Some (r, p2) \<Rightarrow> Some (r, release p2)))"

subsection \<open>Python helpers\<close>

text \<open>\<open>str.upper\<close> on ASCII letters (a \<^typ>\<open>char\<close> is a byte).\<close>

definition upper_char :: "char \<Rightarrow> char" where
  "upper_char c =
     (case map_of (zip ''abcdefghijklmnopqrstuvwxyz'' ''ABCDEFGHIJKLMNOPQRSTUVWXYZ'') c of
        None \<Rightarrow> c
      | Some C \<Rightarrow> C)"

definition upper :: "string \<Rightarrow> string" where
  "upper s = map upper_char s"

text \<open>\<open>list.remove(x)\<close> deletes the first occurrence and raises \<open>ValueError\<close> when
  there is none.\<close>

definition list_remove :: "int \<Rightarrow> int list \<Rightarrow> py_error + int list" where
  "list_remove x xs = (if x \<in> set xs then Inr (remove1 x xs) else Inl ValueError)"

text \<open>
  \<open>list.sort(key=k)\<close> is a stable ascending sort. With \<open>reverse=True\<close> CPython reverses
  the list, sorts it the same way and reverses it again, which keeps elements of equal
  key in their original order.
\<close>

definition py_sort :: "('a \<Rightarrow> real) \<Rightarrow> 'a list \<Rightarrow> 'a list" where
  "py_sort k xs = sort_key k xs"

definition py_sort_reverse :: "('a \<Rightarrow> real) \<Rightarrow> 'a list \<Rightarrow> 'a list" where
  "py_sort_reverse k xs = rev (sort_key k (rev xs))"

subsection \<open>Posting, cancelling, reading\<close>

definition add_offer ::
  "real \<Rightarrow> string \<Rightarrow> real \<Rightarrow> real \<Rightarrow> string \<Rightarrow> pool \<Rightarrow> (int outcome \<times> pool) option" where
  "add_offer now otype amount price user =
     with_lock (\<lambda>p.
       let oid = next_id p;
           p1 = p\<lparr>next_id := next_id p + 1\<rparr>;
           offer = \<lparr>offer_id = oid, offer_type = upper otype, sol_amount = amount,
                    price_per_sol = price, total_usdc = amount * price, user_id = user,
                    status = ACTIVE, timestamp = now, created_at = now\<rparr>;
           p2 = p1\<lparr>offers := (offers p1)(oid \<mapsto> offer)\<rparr>;
           p3 = p2\<lparr>active_offers := active_offers p2 @ [oid]\<rparr>
       in Some (Returns oid, p3))"

text \<open>
  An offer dictionary is reachable only through \<open>self.offers[id]\<close>, so a store to a field
  of the object is an update of the map at that id.
\<close>

definition set_status :: "int \<Rightarrow> status \<Rightarrow> pool \<Rightarrow> pool" where
  "set_status i st p = p\<lparr>offers := (offers p)(i := map_option (\<lambda>x. x\<lparr>status := st\<rparr>) (offers p i))\<rparr>"

definition cancel_offer :: "int \<Rightarrow> pool \<Rightarrow> (bool outcome \<times> pool) option" where
  "cancel_offer oid =
     with_lock (\<lambda>p.
       if oid \<in> set (active_offers p) \<and> oid \<in> dom (offers p) then
         let p1 = set_status oid CANCELLED p in
         (case list_remove oid (active_offers p1) of
            Inl e \<Rightarrow> Some (Raises e, p1)
          | Inr xs \<Rightarrow> Some (Returns True, p1\<lparr>active_offers := xs\<rparr>))
       else Some (Returns False, p))"

definition get_active_offers :: "pool \<Rightarrow> (offer list outcome \<times> pool) option" where
  "get_active_offers =
     with_lock (\<lambda>p. Some (Returns (List.map_filter (offers p) (active_offers p)), p))"

definition get_offer :: "int \<Rightarrow> pool \<Rightarrow> (offer option outcome \<times> pool) option" where
  "get_offer oid = with_lock (\<lambda>p. Some (Returns (offers p oid), p))"

definition get_offers_by_type :: "string \<Rightarrow> pool \<Rightarrow> (offer list outcome \<times> pool) option" where
  "get_offers_by_type otype =
     with_lock (\<lambda>p.
       Some (Returns (filter (\<lambda>x. offer_type x = upper otype)
                        (List.map_filter (offers p) (active_offers p))), p))"

definition clear_pool :: "pool \<Rightarrow> (unit outcome \<times> pool) option" where
  "clear_pool =
     with_lock (\<lambda>p.
       Some (Returns (), p\<lparr>offers := Map.empty, active_offers := [],
                            completed_offers := [], next_id := 1\<rparr>))"

subsection \<open>Executing a match\<close>

text \<open>\<open>offer['sol_amount'] -= match_amount\<close> on the offer stored under id \<open>i\<close>.\<close>

definition sub_sol_amount :: "int \<Rightarrow> real \<Rightarrow> pool \<Rightarrow> pool" where
  "sub_sol_amount i q p =
     p\<lparr>offers := (offers p)(i := map_option (\<lambda>x. x\<lparr>sol_amount := sol_amount x - q\<rparr>) (offers p i))\<rparr>"

definition is_active :: "int \<Rightarrow> pool \<Rightarrow> bool" where
  "is_active i p = (case offers p i of None \<Rightarrow> False | Some x \<Rightarrow> status x = ACTIVE)"

definition is_filled :: "int \<Rightarrow> pool \<Rightarrow> bool" where
  "is_filled i p = (case offers p i of None \<Rightarrow> False | Some x \<Rightarrow> sol_amount x \<le> 0)"

text \<open>The block under \<open>if offer['sol_amount'] <= 0:\<close>, for the offer stored under \<open>i\<close>.\<close>

definition complete_if_filled :: "int \<Rightarrow> pool \<Rightarrow> unit outcome \<times> pool" where
  "complete_if_filled i p =
     (if is_filled i p then
        let p1 = set_status i COMPLETED p in
        (case list_remove i (active_offers p1) of
           Inl e \<Rightarrow> (Raises e, p1)
         | Inr xs \<Rightarrow>
             (Returns (), p1\<lparr>active_offers := xs,
                               completed_offers := completed_offers p1 @ [i]\<rparr>))
      else (Returns (), p))"

definition execute_match ::
  "int \<Rightarrow> int \<Rightarrow> real \<Rightarrow> real \<Rightarrow> pool \<Rightarrow> (bool outcome \<times> pool) option" where
  "execute_match buy_id sell_id match_amount match_price =
     with_lock (\<lambda>p.
       if buy_id \<notin> dom (offers p) \<or> sell_id \<notin> dom (offers p) then Some (Returns False, p)
       else if \<not> is_active buy_id p \<or> \<not> is_active sell_id p \<or>
               buy_id \<notin> set (active_offers p) \<or> sell_id \<notin> set (active_offers p)
         then Some (Returns False, p)
       else
         let p1 = sub_sol_amount buy_id match_amount p;
             p2 = sub_sol_amount sell_id match_amount p1
         in (case complete_if_filled buy_id p2 of
               (Raises e, p3) \<Rightarrow> Some (Raises e, p3)
             | (Returns _, p3) \<Rightarrow>
                 (case complete_if_filled sell_id p3 of
                    (Raises e, p4) \<Rightarrow> Some (Raises e, p4)
                  | (Returns _, p4) \<Rightarrow> Some (Returns True, p4))))"

subsection \<open>Match candidates and statistics\<close>

record match =
  buy_id :: int
  sell_id :: int
  match_amount :: real
  match_price :: real
  buy_price :: real
  sell_price :: real
  spread :: real
  match_total_usdc :: real
  match_timestamp :: real

definition make_match :: "real \<Rightarrow> offer \<Rightarrow> offer \<Rightarrow> match" where
  "make_match now buy_offer sell_offer =
     (let amount = min (sol_amount buy_offer) (sol_amount sell_offer);
          price = (price_per_sol buy_offer + price_per_sol sell_offer) / 2
      in \<lparr>buy_id = offer_id buy_offer, sell_id = offer_id sell_offer,
          match_amount = amount, match_price = price,
          buy_price = price_per_sol buy_offer, sell_price = price_per_sol sell_offer,
          spread = price_per_sol buy_offer - price_per_sol sell_offer,
          match_total_usdc = amount * price, match_timestamp = now\<rparr>)"

text \<open>The two nested \<open>for\<close> loops over the sorted lists.\<close>

definition match_loop :: "real \<Rightarrow> offer list \<Rightarrow> offer list \<Rightarrow> match list" where
  "match_loop now buy_offers sell_offers =
     concat (map (\<lambda>b. map (make_match now b)
                          (filter (\<lambda>s. price_per_sol b \<ge> price_per_sol s) sell_offers))
                 buy_offers)"

text \<open>
  \<open>simulate_matching\<close> takes the lock and then calls \<open>get_offers_by_type\<close>, which takes the
  lock itself.
\<close>

definition simulate_matching :: "real \<Rightarrow> pool \<Rightarrow> (match list outcome \<times> pool) option" where
  "simulate_matching now =
     with_lock (\<lambda>p.
       case get_offers_by_type ''BUY'' p of
         None \<Rightarrow> None
       | Some (Raises e, p1) \<Rightarrow> Some (Raises e, p1)
       | Some (Returns buy_offers, p1) \<Rightarrow>
           (case get_offers_by_type ''SELL'' p1 of
              None \<Rightarrow> None
            | Some (Raises e, p2) \<Rightarrow> Some (Raises e, p2)
            | Some (Returns sell_offers, p2) \<Rightarrow>
                Some (Returns (match_loop now (py_sort_reverse price_per_sol buy_offers)
                                 (py_sort price_per_sol sell_offers)), p2)))"

record pool_stats =
  total_active_offers :: nat
  buy_offers_count :: nat
  sell_offers_count :: nat
  completed_offers_count :: nat
  total_sol_buy_volume :: real
  total_sol_sell_volume :: real
  avg_buy_price :: real
  avg_sell_price :: real
  highest_buy_price :: real
  lowest_sell_price :: real

definition make_stats :: "offer list \<Rightarrow> nat \<Rightarrow> pool_stats" where
  "make_stats active n_completed =
     (let buy_offers = filter (\<lambda>x. offer_type x = ''BUY'') active;
          sell_offers = filter (\<lambda>x. offer_type x = ''SELL'') active
      in \<lparr>total_active_offers = length active,
          buy_offers_count = length buy_offers,
          sell_offers_count = length sell_offers,
          completed_offers_count = n_completed,
          total_sol_buy_volume = sum_list (map sol_amount buy_offers),
          total_sol_sell_volume = sum_list (map sol_amount sell_offers),
          avg_buy_price = (if buy_offers \<noteq> []
             then sum_list (map price_per_sol buy_offers) / real (length buy_offers) else 0),
          avg_sell_price = (if sell_offers \<noteq> []
             then sum_list (map price_per_sol sell_offers) / real (length sell_offers) else 0),
          highest_buy_price = (case map price_per_sol buy_offers of
             [] \<Rightarrow> 0 | x # xs \<Rightarrow> fold max xs x),
          lowest_sell_price = (case map price_per_sol sell_offers of
             [] \<Rightarrow> 0 | x # xs \<Rightarrow> fold min xs x)\<rparr>)"

text \<open>\<open>get_pool_stats\<close> takes the lock and then calls \<open>get_active_offers\<close>, which takes
  the lock itself.\<close>

definition get_pool_stats :: "pool \<Rightarrow> (pool_stats outcome \<times> pool) option" where
  "get_pool_stats =
     with_lock (\<lambda>p.
       case get_active_offers p of
         None \<Rightarrow> None
       | Some (Raises e, p1) \<Rightarrow> Some (Raises e, p1)
       | Some (Returns active, p1) \<Rightarrow>
           Some (Returns (make_stats active (length (completed_offers p1))), p1))"

subsection \<open>Sequences of calls\<close>

text \<open>
  A caller that invokes the mutating operations one after another, and goes on after an
  exception. \<open>run\<close> collects the ids that \<open>add_offer\<close> returned, in order.
\<close>

datatype op =
    AddOffer real string real real string
  | CancelOffer int
  | ExecuteMatch int int real real
  | ClearPool

fun apply_op :: "op \<Rightarrow> pool \<Rightarrow> (int list \<times> pool) option" where
  "apply_op (AddOffer now otype amount price user) p =
     (case add_offer now otype amount price user p of
        None \<Rightarrow> None
      | Some (Returns i, p') \<Rightarrow> Some ([i], p')
      | Some (Raises e, p') \<Rightarrow> Some ([], p'))"
| "apply_op (CancelOffer i) p =
     (case cancel_offer i p of None \<Rightarrow> None | Some (r, p') \<Rightarrow> Some ([], p'))"
| "apply_op (ExecuteMatch b s q price) p =
     (case execute_match b s q price p of None \<Rightarrow> None | Some (r, p') \<Rightarrow> Some ([], p'))"
| "apply_op ClearPool p =
     (case clear_pool p of None \<Rightarrow> None | Some (r, p') \<Rightarrow> Some ([], p'))"

fun run :: "op list \<Rightarrow> pool \<Rightarrow> (int list \<times> pool) option" where
  "run [] p = Some ([], p)"
| "run (x # xs) p =
     (case apply_op x p of
        None \<Rightarrow> None
      | Some (ids, p') \<Rightarrow>
          (case run xs p' of
             None \<Rightarrow> None
           | Some (ids', p'') \<Rightarrow> Some (ids @ ids', p'')))"

text \<open>What a call left behind: its result, and fields of the pool after it.\<close>

definition result_of :: "('a outcome \<times> pool) option \<Rightarrow> 'a outcome option" where
  "result_of r = map_option fst r"

definition pool_after :: "('a outcome \<times> pool) option \<Rightarrow> pool option" where
  "pool_after r = map_option snd r"

definition offer_after :: "int \<Rightarrow> ('a outcome \<times> pool) option \<Rightarrow> offer option" where
  "offer_after i r = (case r of None \<Rightarrow> None | Some (_, p) \<Rightarrow> offers p i)"

definition active_after :: "('a outcome \<times> pool) option \<Rightarrow> int list option" where
  "active_after r = map_option (active_offers \<circ> snd) r"

text \<open>
  The state between two calls: the lock is free, the active list is strictly increasing,
  it holds exactly the ids of the offers with status \<open>ACTIVE\<close>, every offer is stored
  under its own id, and every stored id is below \<open>next_id\<close>.
\<close>

definition book_inv :: "pool \<Rightarrow> bool" where
  "book_inv p \<longleftrightarrow>
     sorted_wrt (<) (active_offers p) \<and>
     (\<forall>i \<in> set (active_offers p). is_active i p) \<and>
     (\<forall>i x. offers p i = Some x \<longrightarrow>
        offer_id x = i \<and> i < next_id p \<and> (status x = ACTIVE \<longrightarrow> i \<in> set (active_offers p)))"

definition pool_inv :: "pool \<Rightarrow> bool" where
  "pool_inv p \<longleftrightarrow> \<not> lock p \<and> book_inv p"

text \<open>The book of the scenario: BUY 2.0 at 101.0 (id 1), then SELL 1.5 at 99.0 (id 2).\<close>

definition scenario_pool :: pool where
  "scenario_pool =
     \<lparr>offers = [1 \<mapsto> \<lparr>offer_id = 1, offer_type = ''BUY'', sol_amount = 2, price_per_sol = 101,
                       total_usdc = 202, user_id = ''anonymous'', status = ACTIVE,
                       timestamp = 0, created_at = 0\<rparr>,
                2 \<mapsto> \<lparr>offer_id = 2, offer_type = ''SELL'', sol_amount = 3 / 2, price_per_sol = 99,
                       total_usdc = 297 / 2, user_id = ''anonymous'', status = ACTIVE,
                       timestamp = 0, created_at = 0\<rparr>],
      active_offers = [1, 2], completed_offers = [], lock = False, next_id = 3\<rparr>"

text \<open>A book with one offer: BUY 1.0 at 100.0 (id 1).\<close>

definition single_pool :: pool where
  "single_pool =
     \<lparr>offers = [1 \<mapsto> \<lparr>offer_id = 1, offer_type = ''BUY'', sol_amount = 1, price_per_sol = 100,
                       total_usdc = 100, user_id = ''anonymous'', status = ACTIVE,
                       timestamp = 0, created_at = 0\<rparr>],
      active_offers = [1], completed_offers = [], lock = False, next_id = 2\<rparr>"

section \<open>The price monitor (price\_monitor.py)\<close>

text \<open>
  The monitor keeps \<open>last_price\<close> and \<open>last_update\<close> (both \<open>None\<close> at first) and writes
  the same two values into the session state. One iteration of \<open>_monitor_loop\<close> is a
  function of what the outside world answered in that iteration: the quote, the clock,
  and the market data. \<open>get_sol_usdc_quote\<close> answers with a dictionary that has a
  \<open>price\<close>, or with \<open>None\<close>, or (as any call) by raising. The logger catches its own
  exceptions, and \<open>_check_arbitrage_opportunities\<close> catches its own and only prints, so
  neither changes the state of the monitor. The waits between iterations are not modelled.
\<close>

datatype quote_result = Quote real | QuoteNone | QuoteRaises

datatype market_result = Market string | MarketNone | MarketRaises

record cycle_input =
  quote :: quote_result
  clock :: real
  market :: market_result

record monitor =
  last_price :: "real option"
  last_update :: "real option"
  session_last_jupiter_price :: "real option"
  session_last_update_time :: "real option"
  market_cycle_count :: "nat option"
  session_market_data :: "string option"
  session_last_market_update :: "real option"

definition init_monitor :: monitor where
  "init_monitor =
     \<lparr>last_price = None, last_update = None, session_last_jupiter_price = None,
      session_last_update_time = None, market_cycle_count = None,
      session_market_data = None, session_last_market_update = None\<rparr>"

definition publish_price :: "real \<Rightarrow> real \<Rightarrow> monitor \<Rightarrow> monitor" where
  "publish_price x now m =
     m\<lparr>session_last_jupiter_price := Some x, session_last_update_time := Some now,
       last_price := Some x, last_update := Some now\<rparr>"

definition count_cycle :: "monitor \<Rightarrow> monitor" where
  "count_cycle m =
     m\<lparr>market_cycle_count := (case market_cycle_count m of None \<Rightarrow> Some 1 | Some n \<Rightarrow> Some (n + 1))\<rparr>"

definition fetch_market :: "market_result \<Rightarrow> real \<Rightarrow> monitor \<Rightarrow> monitor" where
  "fetch_market r now m =
     (case market_cycle_count m of
        None \<Rightarrow> m
      | Some n \<Rightarrow>
          if n mod 5 = 0 then
            (case r of
               Market d \<Rightarrow> m\<lparr>session_market_data := Some d, session_last_market_update := Some now\<rparr>
             | MarketNone \<Rightarrow> m
             | MarketRaises \<Rightarrow> m)
          else m)"

definition monitor_cycle :: "cycle_input \<Rightarrow> monitor \<Rightarrow> monitor" where
  "monitor_cycle c m =
     (case quote c of
        QuoteRaises \<Rightarrow> m
      | QuoteNone \<Rightarrow> fetch_market (market c) (clock c) (count_cycle m)
      | Quote x \<Rightarrow> fetch_market (market c) (clock c) (count_cycle (publish_price x (clock c) m)))"

text \<open>The loop, for the iterations that ran before the stop event was set.\<close>

fun monitor_loop :: "cycle_input list \<Rightarrow> monitor \<Rightarrow> monitor" where
  "monitor_loop [] m = m"
| "monitor_loop (c # cs) m = monitor_loop cs (monitor_cycle c m)"

definition get_current_price :: "monitor \<Rightarrow> real option" where
  "get_current_price m = last_price m"

definition get_last_update :: "monitor \<Rightarrow> real option" where
  "get_last_update m = last_update m"

definition fetch_failed :: "cycle_input \<Rightarrow> bool" where
  "fetch_failed c = (case quote c of Quote x \<Rightarrow> False | QuoteNone \<Rightarrow> True | QuoteRaises \<Rightarrow> True)"

section \<open>The arbitrage score (analytics\_engine.py, app.py)\<close>

text \<open>
  \<open>round(x, n)\<close> rounds to \<open>n\<close> decimals, a tie going to the even neighbour. The price
  impact is what \<open>get_advanced_quote_with_routes\<close> answered: \<open>None\<close>, or a dictionary with
  that number.
\<close>

definition round_half_even :: "real \<Rightarrow> int" where
  "round_half_even y =
     (let f = \<lfloor>y\<rfloor>; d = y - of_int f
      in if d < 1 / 2 then f else if d > 1 / 2 then f + 1 else if even f then f else f + 1)"

definition py_round :: "real \<Rightarrow> nat \<Rightarrow> real" where
  "py_round x n = of_int (round_half_even (x * 10 ^ n)) / 10 ^ n"

record arbitrage_analysis =
  score :: real
  spread_pct :: real
  price_impact_pct :: real
  net_arbitrage_pct :: real
  recommendation :: string
  action :: string
  risk_level :: string

definition base_score :: "real \<Rightarrow> real" where
  "base_score net_arbitrage = max 0 (min 100 ((net_arbitrage + 5) * 10))"

definition volume_factor :: "real \<Rightarrow> real" where
  "volume_factor volume = (if volume > 10 then 8 / 10 else if volume < 1 then 11 / 10 else 1)"

definition calculate_arbitrage_score ::
  "real \<Rightarrow> real \<Rightarrow> string \<Rightarrow> real \<Rightarrow> real option \<Rightarrow> py_error + arbitrage_analysis" where
  "calculate_arbitrage_score otc_price jupiter_price otype volume advanced_quote =
     (if jupiter_price = 0 then Inl ZeroDivisionError
      else
        let spread_pct = (if otype = ''BUY''
               then ((otc_price - jupiter_price) / jupiter_price) * 100
               else ((jupiter_price - otc_price) / jupiter_price) * 100);
            price_impact = (case advanced_quote of None \<Rightarrow> 0 | Some i \<Rightarrow> i);
            net_arbitrage = spread_pct - price_impact;
            final_score = base_score net_arbitrage * volume_factor volume
        in Inr \<lparr>score = py_round final_score 2,
                 spread_pct = py_round spread_pct 4,
                 price_impact_pct = py_round price_impact 4,
                 net_arbitrage_pct = py_round net_arbitrage 4,
                 recommendation =
                   (if final_score > 80 then ''Excellent arbitrage opportunity''
                    else if final_score > 60 then ''Good arbitrage opportunity''
                    else if final_score > 40 then ''Moderate opportunity''
                    else if final_score > 20 then ''Low opportunity''
                    else ''Poor opportunity''),
                 action =
                   (if final_score > 80 then ''Execute immediately''
                    else if final_score > 60 then ''Consider execution''
                    else if final_score > 40 then ''Monitor for better conditions''
                    else if final_score > 20 then ''Wait for better spreads''
                    else ''Avoid execution''),
                 risk_level =
                   (if final_score > 60 then ''Low''
                    else if final_score > 30 then ''Medium'' else ''High'')\<rparr>)"

definition score_of :: "py_error + arbitrage_analysis \<Rightarrow> real option" where
  "score_of r = (case r of Inl e \<Rightarrow> None | Inr a \<Rightarrow> Some (score a))"

text \<open>The score of the scanner in app.py, when the quote has a price impact.\<close>

definition scanner_score :: "real \<Rightarrow> real" where
  "scanner_score net_spread = min 100 (max 0 (net_spread * 15))"

section \<open>Properties of the pool\<close>

subsection \<open>The lock and the invariant\<close>

lemma with_lock_locked: "lock p \<Longrightarrow> with_lock body p = None"
  by (simp add: with_lock_def acquire_def)

lemma with_lock_free:
  "\<not> lock p \<Longrightarrow> with_lock body p = map_option (\<lambda>(r, p2). (r, release p2)) (body (p\<lparr>lock := True\<rparr>))"
  by (simp add: with_lock_def acquire_def split: option.splits)

lemma book_inv_lock [simp]: "book_inv (p\<lparr>lock := l\<rparr>) = book_inv p"
  by (simp add: book_inv_def is_active_def)

lemma book_inv_release [simp]: "book_inv (release p) = book_inv p"
  by (simp add: release_def)

lemma book_inv_init: "book_inv init_pool"
  by (simp add: book_inv_def init_pool_def)

lemma strict_sorted_snoc:
  "sorted_wrt (<) xs \<Longrightarrow> \<forall>x\<in>set xs. x < (n::int) \<Longrightarrow> sorted_wrt (<) (xs @ [n])"
  by (simp add: sorted_wrt_append)

lemma strict_sorted_remove1:
  "sorted_wrt (<) (xs::int list) \<Longrightarrow> sorted_wrt (<) (remove1 x xs)"
  by (simp add: strict_sorted_iff sorted_remove1)

lemma strict_sorted_notin_remove1:
  "sorted_wrt (<) (xs::int list) \<Longrightarrow> x \<notin> set (remove1 x xs)"
  by (simp add: strict_sorted_iff)

lemma book_inv_sub_sol_amount: "book_inv p \<Longrightarrow> book_inv (sub_sol_amount i q p)"
  by (auto simp: book_inv_def sub_sol_amount_def is_active_def split: option.splits if_splits)

lemma book_inv_completed [simp]: "book_inv (p\<lparr>completed_offers := c\<rparr>) = book_inv p"
  by (simp add: book_inv_def is_active_def)

lemma book_inv_drop_active:
  assumes "book_inv p" and "st \<noteq> ACTIVE"
  shows "book_inv ((set_status i st p)\<lparr>active_offers := remove1 i (active_offers p)\<rparr>)"
proof -
  let ?p' = "(set_status i st p)\<lparr>active_offers := remove1 i (active_offers p)\<rparr>"
  from assms have s: "sorted_wrt (<) (active_offers p)" by (simp add: book_inv_def)
  have eq: "set (remove1 i (active_offers p)) = set (active_offers p) - {i}"
    using s by (simp add: strict_sorted_iff)
  have 1: "sorted_wrt (<) (remove1 i (active_offers p))"
    using s by (rule strict_sorted_remove1)
  have 2: "\<forall>j\<in>set (active_offers p) - {i}. is_active j p"
    using assms by (simp add: book_inv_def)
  have 3: "\<forall>j x. offers p j = Some x \<longrightarrow>
        offer_id x = j \<and> j < next_id p \<and> (status x = ACTIVE \<longrightarrow> j \<in> set (active_offers p))"
    using assms by (simp add: book_inv_def)
  show ?thesis
    unfolding book_inv_def
  proof (intro conjI)
    show "sorted_wrt (<) (active_offers ?p')"
      using 1 by simp
  next
    show "\<forall>j\<in>set (active_offers ?p'). is_active j ?p'"
      using 2 by (simp add: eq is_active_def set_status_def)
  next
    show "\<forall>j x. offers ?p' j = Some x \<longrightarrow>
        offer_id x = j \<and> j < next_id ?p' \<and> (status x = ACTIVE \<longrightarrow> j \<in> set (active_offers ?p'))"
      using 3 assms(2) by (auto simp: eq set_status_def)
  qed
qed

lemma book_inv_complete_if_filled:
  assumes "book_inv p"
  shows "book_inv (snd (complete_if_filled i p))"
proof (cases "is_filled i p")
  case False
  with assms show ?thesis by (simp add: complete_if_filled_def)
next
  case True
  have dropped: "book_inv ((set_status i COMPLETED p)\<lparr>active_offers := remove1 i (active_offers p)\<rparr>)"
    using assms by (rule book_inv_drop_active) simp
  show ?thesis
  proof (cases "i \<in> set (active_offers p)")
    case False
    then have "remove1 i (active_offers p) = active_offers p" by (simp add: remove1_idem)
    moreover have "(set_status i COMPLETED p)\<lparr>active_offers := active_offers p\<rparr> = set_status i COMPLETED p"
      by (simp add: set_status_def)
    ultimately have "book_inv (set_status i COMPLETED p)" using dropped by simp
    with True False show ?thesis
      by (simp add: complete_if_filled_def list_remove_def Let_def set_status_def)
  next
    case in_list: True
    with True dropped show ?thesis
      by (simp add: complete_if_filled_def list_remove_def Let_def set_status_def)
  qed
qed

lemma book_inv_add_offer_body:
  assumes "book_inv p"
  shows "book_inv (p\<lparr>next_id := next_id p + 1,
            offers := (offers p)(next_id p \<mapsto> \<lparr>offer_id = next_id p, offer_type = t,
               sol_amount = a, price_per_sol = pr, total_usdc = u, user_id = w,
               status = ACTIVE, timestamp = n1, created_at = n2\<rparr>),
            active_offers := active_offers p @ [next_id p]\<rparr>)"
    (is "book_inv ?p'")
proof -
  have lt: "\<forall>x\<in>set (active_offers p). x < next_id p"
    using assms by (auto simp: book_inv_def is_active_def split: option.splits)
  then have srt: "sorted_wrt (<) (active_offers p @ [next_id p])"
    using assms by (simp add: book_inv_def strict_sorted_snoc)
  have 2: "\<forall>j\<in>set (active_offers p). is_active j p"
    using assms by (simp add: book_inv_def)
  have 3: "\<forall>j x. offers p j = Some x \<longrightarrow>
        offer_id x = j \<and> j < next_id p \<and> (status x = ACTIVE \<longrightarrow> j \<in> set (active_offers p))"
    using assms by (simp add: book_inv_def)
  show ?thesis
    unfolding book_inv_def
  proof (intro conjI)
    show "sorted_wrt (<) (active_offers ?p')"
      using srt by simp
  next
    show "\<forall>j\<in>set (active_offers ?p'). is_active j ?p'"
      using 2 by (simp add: is_active_def)
  next
    show "\<forall>j x. offers ?p' j = Some x \<longrightarrow>
        offer_id x = j \<and> j < next_id ?p' \<and> (status x = ACTIVE \<longrightarrow> j \<in> set (active_offers ?p'))"
      using 3 by (auto simp: less_imp_le dest: spec)
  qed
qed

lemma add_offer_free:
  "\<not> lock p \<Longrightarrow> add_offer now t a pr u p =
     Some (Returns (next_id p),
       p\<lparr>next_id := next_id p + 1,
         offers := (offers p)(next_id p \<mapsto> \<lparr>offer_id = next_id p, offer_type = upper t,
               sol_amount = a, price_per_sol = pr, total_usdc = a * pr, user_id = u,
               status = ACTIVE, timestamp = now, created_at = now\<rparr>),
         active_offers := active_offers p @ [next_id p]\<rparr>)"
  by (simp add: add_offer_def with_lock_free Let_def release_def)

lemma pool_inv_add_offer:
  assumes "pool_inv p" and "add_offer now t a pr u p = Some (r, p')"
  shows "pool_inv p'"
proof -
  from assms(1) have nl: "\<not> lock p" and bi: "book_inv p" by (simp_all add: pool_inv_def)
  from assms(2) nl book_inv_add_offer_body [OF bi] show ?thesis
    by (auto simp: add_offer_free pool_inv_def)
qed

lemma cancel_offer_free:
  "\<not> lock p \<Longrightarrow> cancel_offer i p =
     (if i \<in> set (active_offers p) \<and> i \<in> dom (offers p)
      then Some (Returns True, (set_status i CANCELLED p)\<lparr>active_offers := remove1 i (active_offers p)\<rparr>)
      else Some (Returns False, p))"
  by (simp add: cancel_offer_def with_lock_free Let_def release_def list_remove_def set_status_def)

lemma pool_inv_cancel_offer:
  assumes "pool_inv p" and "cancel_offer i p = Some (r, p')"
  shows "pool_inv p'"
proof -
  from assms(1) have nl: "\<not> lock p" and bi: "book_inv p" by (simp_all add: pool_inv_def)
  have "book_inv ((set_status i CANCELLED p)\<lparr>active_offers := remove1 i (active_offers p)\<rparr>)"
    using bi by (rule book_inv_drop_active) simp
  moreover have "\<not> lock ((set_status i CANCELLED p)\<lparr>active_offers := remove1 i (active_offers p)\<rparr>)"
    using nl by (simp add: set_status_def)
  ultimately show ?thesis
    using assms nl by (auto simp: cancel_offer_free pool_inv_def split: if_splits)
qed

lemma pool_inv_clear_pool:
  assumes "pool_inv p" and "clear_pool p = Some (r, p')"
  shows "pool_inv p'"
  using assms
  by (auto simp: pool_inv_def clear_pool_def with_lock_free release_def book_inv_def)

lemma lock_sub_sol_amount [simp]: "lock (sub_sol_amount i q p) = lock p"
  by (simp add: sub_sol_amount_def)

lemma lock_complete_if_filled [simp]: "lock (snd (complete_if_filled i p)) = lock p"
  by (simp add: complete_if_filled_def Let_def set_status_def split: sum.splits)

lemma pool_inv_execute_match:
  assumes "pool_inv p" and "execute_match b s q price p = Some (r, p')"
  shows "pool_inv p'"
proof -
  from assms(1) have nl: "\<not> lock p" and bi: "book_inv p" by (simp_all add: pool_inv_def)
  let ?p0 = "p\<lparr>lock := True\<rparr>"
  let ?p2 = "sub_sol_amount s q (sub_sol_amount b q ?p0)"
  let ?c1 = "complete_if_filled b ?p2"
  let ?c2 = "complete_if_filled s (snd ?c1)"
  have b2: "book_inv ?p2" using bi by (simp add: book_inv_sub_sol_amount)
  then have b3: "book_inv (snd ?c1)" by (rule book_inv_complete_if_filled)
  then have b4: "book_inv (snd ?c2)" by (rule book_inv_complete_if_filled)
  have "book_inv p' \<and> \<not> lock p'"
    using assms(2) nl bi b3 b4
    by (auto simp: execute_match_def with_lock_free Let_def release_def
        split: if_splits prod.splits outcome.splits)
  then show ?thesis by (simp add: pool_inv_def)
qed

lemma pool_inv_apply_op:
  assumes "pool_inv p" and "apply_op x p = Some (ids, p')"
  shows "pool_inv p'"
proof (cases x)
  case (AddOffer now t a pr u)
  with assms show ?thesis
    by (auto split: option.splits outcome.splits dest: pool_inv_add_offer)
next
  case (CancelOffer i)
  with assms show ?thesis
    by (auto split: option.splits dest: pool_inv_cancel_offer)
next
  case (ExecuteMatch b s q price)
  with assms show ?thesis
    by (auto split: option.splits dest: pool_inv_execute_match)
next
  case ClearPool
  with assms show ?thesis
    by (auto split: option.splits dest: pool_inv_clear_pool)
qed

lemma pool_inv_run:
  "pool_inv p \<Longrightarrow> run xs p = Some (ids, p') \<Longrightarrow> pool_inv p'"
proof (induction xs arbitrary: p ids)
  case Nil
  then show ?case by simp
next
  case (Cons x xs)
  from Cons.prems(2) obtain i1 p1 i2
    where a: "apply_op x p = Some (i1, p1)" and r: "run xs p1 = Some (i2, p')"
    by (auto split: option.splits)
  from Cons.prems(1) a have "pool_inv p1" by (rule pool_inv_apply_op)
  then show ?case using r by (rule Cons.IH)
qed

lemma release_acquired: "\<not> lock p \<Longrightarrow> release (p\<lparr>lock := True\<rparr>) = p"
  by (cases p) (simp add: release_def)

lemma is_active_lock [simp]: "is_active i (p\<lparr>lock := l\<rparr>) = is_active i p"
  by (simp add: is_active_def)

text \<open>The state after a successful execution on two different legs, spelled out.\<close>

lemma execute_match_distinct_legs:
  assumes nl: "\<not> lock p" and ne: "bid \<noteq> sid"
    and b: "offers p bid = Some b" and s: "offers p sid = Some s"
    and act: "status b = ACTIVE" "status s = ACTIVE"
    and inl: "bid \<in> set (active_offers p)" "sid \<in> set (active_offers p)"
  shows "execute_match bid sid q price p =
     Some (Returns True,
       p\<lparr>offers := (\<lambda>i.
            if i = bid then
              Some (if sol_amount b - q \<le> 0
                    then b\<lparr>sol_amount := sol_amount b - q, status := COMPLETED\<rparr>
                    else b\<lparr>sol_amount := sol_amount b - q\<rparr>)
            else if i = sid then
              Some (if sol_amount s - q \<le> 0
                    then s\<lparr>sol_amount := sol_amount s - q, status := COMPLETED\<rparr>
                    else s\<lparr>sol_amount := sol_amount s - q\<rparr>)
            else offers p i),
         active_offers :=
           (let xs = (if sol_amount b - q \<le> 0 then remove1 bid (active_offers p) else active_offers p)
            in if sol_amount s - q \<le> 0 then remove1 sid xs else xs),
         completed_offers := completed_offers p
            @ (if sol_amount b - q \<le> 0 then [bid] else [])
            @ (if sol_amount s - q \<le> 0 then [sid] else [])\<rparr>)"
  using assms
  by (cases p)
     (auto simp: execute_match_def with_lock_def acquire_def is_active_def sub_sol_amount_def
        complete_if_filled_def is_filled_def set_status_def list_remove_def Let_def
        release_def fun_eq_iff domI)

lemma scenario_pool_posted:
  "run [AddOffer 0 ''buy'' 2 101 ''anonymous'', AddOffer 0 ''sell'' (3 / 2) 99 ''anonymous''] init_pool
     = Some ([1, 2], scenario_pool)"
  by (simp add: add_offer_free init_pool_def scenario_pool_def upper_def upper_char_def
      fun_upd_twist)

lemma single_pool_posted:
  "run [AddOffer 0 ''buy'' 1 100 ''anonymous''] init_pool = Some ([1], single_pool)"
  by (simp add: add_offer_free init_pool_def single_pool_def upper_def upper_char_def)

lemma pool_inv_init: "pool_inv init_pool"
  by (simp add: pool_inv_def book_inv_init) (simp add: init_pool_def)

text \<open>Every state that a sequence of calls reaches from a new pool has the invariant.\<close>

lemma reachable_pool_inv: "run ops init_pool = Some (ids, p) \<Longrightarrow> pool_inv p"
  using pool_inv_init by (rule pool_inv_run)

lemma pool_inv_scenario: "pool_inv scenario_pool"
  using pool_inv_init scenario_pool_posted by (rule pool_inv_run)

lemma pool_inv_single: "pool_inv single_pool"
  using pool_inv_init single_pool_posted by (rule pool_inv_run)

subsection \<open>Executing a match\<close>

text \<open>
  Claim C1, as the code has it. In a reachable state, a call of \<open>execute_match\<close> on two
  different offers that are both \<open>ACTIVE\<close> returns \<open>True\<close> and subtracts the quantity from
  each leg, without clamping: the remaining amount is the old amount minus the quantity,
  whatever its sign. A leg whose remaining amount is at most zero becomes \<open>COMPLETED\<close>
  and leaves the active list; the other stays \<open>ACTIVE\<close> and in the list.
\<close>

theorem execute_match_decrements_both_legs:
  assumes "pool_inv p" and "bid \<noteq> sid"
    and "offers p bid = Some b" and "offers p sid = Some s"
    and "status b = ACTIVE" and "status s = ACTIVE"
  shows "result_of (execute_match bid sid q price p) = Some (Returns True) \<and>
     map_option sol_amount (offer_after bid (execute_match bid sid q price p)) = Some (sol_amount b - q) \<and>
     map_option sol_amount (offer_after sid (execute_match bid sid q price p)) = Some (sol_amount s - q) \<and>
     map_option status (offer_after bid (execute_match bid sid q price p)) =
       Some (if sol_amount b - q \<le> 0 then COMPLETED else ACTIVE) \<and>
     map_option status (offer_after sid (execute_match bid sid q price p)) =
       Some (if sol_amount s - q \<le> 0 then COMPLETED else ACTIVE) \<and>
     map_option (\<lambda>xs. bid \<in> set xs) (active_after (execute_match bid sid q price p)) =
       Some (\<not> sol_amount b - q \<le> 0) \<and>
     map_option (\<lambda>xs. sid \<in> set xs) (active_after (execute_match bid sid q price p)) =
       Some (\<not> sol_amount s - q \<le> 0)"
proof -
  from assms(1) have nl: "\<not> lock p" and bi: "book_inv p" by (simp_all add: pool_inv_def)
  from bi assms(3-6) have inl: "bid \<in> set (active_offers p)" "sid \<in> set (active_offers p)"
    by (auto simp: book_inv_def)
  from bi have "sorted_wrt (<) (active_offers p)" by (simp add: book_inv_def)
  then have d: "distinct (active_offers p)" by (simp add: strict_sorted_iff)
  note ex = execute_match_distinct_legs [OF nl assms(2) assms(3) assms(4) assms(5) assms(6) inl, of q price]
  show ?thesis
    using assms(2,5,6) inl d
    by (simp add: ex result_of_def offer_after_def active_after_def Let_def)
qed


theorem execute_match_decrements_both_legs_witness:
  "pool_inv scenario_pool \<and>
   map_option sol_amount (offer_after 1 (execute_match 1 2 (3 / 2) 100 scenario_pool)) = Some (1 / 2) \<and>
   map_option sol_amount (offer_after 2 (execute_match 1 2 (3 / 2) 100 scenario_pool)) = Some 0 \<and>
   map_option status (offer_after 1 (execute_match 1 2 (3 / 2) 100 scenario_pool)) = Some ACTIVE \<and>
   map_option status (offer_after 2 (execute_match 1 2 (3 / 2) 100 scenario_pool)) = Some COMPLETED"
proof -
  have b: "offers scenario_pool 1 = Some \<lparr>offer_id = 1, offer_type = ''BUY'', sol_amount = 2,
      price_per_sol = 101, total_usdc = 202, user_id = ''anonymous'', status = ACTIVE,
      timestamp = 0, created_at = 0\<rparr>"
    by (simp add: scenario_pool_def)
  have s: "offers scenario_pool 2 = Some \<lparr>offer_id = 2, offer_type = ''SELL'', sol_amount = 3 / 2,
      price_per_sol = 99, total_usdc = 297 / 2, user_id = ''anonymous'', status = ACTIVE,
      timestamp = 0, created_at = 0\<rparr>"
    by (simp add: scenario_pool_def)
  have ne: "(1::int) \<noteq> 2" by simp
  show ?thesis
    using execute_match_decrements_both_legs [OF pool_inv_scenario ne b s, of "3 / 2" 100]
      pool_inv_scenario
    by simp
qed

text \<open>
  Claim C1 as stated fails: executing 5.0 against the scenario book (2.0 and 1.5 left)
  succeeds and leaves the two offers with the amounts -3.0 and -3.5.
\<close>

theorem execute_match_clamp_counterexample:
  "result_of (execute_match 1 2 5 100 scenario_pool) = Some (Returns True) \<and>
   map_option sol_amount (offer_after 1 (execute_match 1 2 5 100 scenario_pool)) = Some (- 3) \<and>
   map_option sol_amount (offer_after 2 (execute_match 1 2 5 100 scenario_pool)) = Some (- 7 / 2)"
  by (simp add: execute_match_def with_lock_def acquire_def release_def scenario_pool_def
      result_of_def offer_after_def is_active_def sub_sol_amount_def complete_if_filled_def
      is_filled_def set_status_def list_remove_def Let_def)

subsection \<open>Posting\<close>

text \<open>
  Claim C2, as the code has it. \<open>add_offer\<close> checks nothing: for every amount and
  price, also zero or negative, it returns the next id and stores an \<open>ACTIVE\<close> offer with
  that amount and price under it, at the end of the active list.
\<close>

theorem add_offer_never_rejects:
  assumes "\<not> lock p"
  shows "result_of (add_offer now otype amount price user p) = Some (Returns (next_id p)) \<and>
     offer_after (next_id p) (add_offer now otype amount price user p) =
       Some \<lparr>offer_id = next_id p, offer_type = upper otype, sol_amount = amount,
             price_per_sol = price, total_usdc = amount * price, user_id = user,
             status = ACTIVE, timestamp = now, created_at = now\<rparr> \<and>
     active_after (add_offer now otype amount price user p) = Some (active_offers p @ [next_id p])"
  using assms by (simp add: add_offer_free result_of_def offer_after_def active_after_def)


theorem add_offer_never_rejects_witness:
  "\<not> lock init_pool \<and>
   result_of (add_offer 0 ''buy'' (- 1) 0 ''anonymous'' init_pool) = Some (Returns 1) \<and>
   active_after (add_offer 0 ''buy'' (- 1) 0 ''anonymous'' init_pool) = Some [1]"
  using add_offer_never_rejects [of init_pool 0 "''buy''" "- 1" 0 "''anonymous''"]
  by (simp add: init_pool_def)

text \<open>
  Claim C2 as stated fails: posting the amount -1.0 at the price 0.0 into a new pool is
  not rejected; it returns id 1 and the offer is stored as \<open>ACTIVE\<close>.
\<close>

theorem add_offer_invalid_order_counterexample:
  "result_of (add_offer 0 ''BUY'' (- 1) 0 ''anonymous'' init_pool) = Some (Returns 1) \<and>
   map_option sol_amount (offer_after 1 (add_offer 0 ''BUY'' (- 1) 0 ''anonymous'' init_pool)) = Some (- 1) \<and>
   map_option status (offer_after 1 (add_offer 0 ''BUY'' (- 1) 0 ''anonymous'' init_pool)) = Some ACTIVE"
  by (simp add: add_offer_def with_lock_def acquire_def release_def init_pool_def
      result_of_def offer_after_def Let_def)

subsection \<open>Failing closed\<close>

text \<open>
  Claim C3, as the code has it. With the lock free, \<open>execute_match\<close> returns \<open>False\<close> and
  leaves the pool as it was unless both ids are stored, both offers have status \<open>ACTIVE\<close>
  and both ids are in the active list. The quantity is not looked at: on two different
  offers that pass these checks the call returns \<open>True\<close> for every quantity.
\<close>

theorem execute_match_fails_closed:
  assumes "\<not> lock p"
  shows "(\<not> (bid \<in> dom (offers p) \<and> sid \<in> dom (offers p) \<and>
            is_active bid p \<and> is_active sid p \<and>
            bid \<in> set (active_offers p) \<and> sid \<in> set (active_offers p)) \<longrightarrow>
          execute_match bid sid q price p = Some (Returns False, p)) \<and>
         (bid \<in> dom (offers p) \<and> sid \<in> dom (offers p) \<and>
          is_active bid p \<and> is_active sid p \<and>
          bid \<in> set (active_offers p) \<and> sid \<in> set (active_offers p) \<and>
          bid \<noteq> sid \<longrightarrow>
          result_of (execute_match bid sid q price p) = Some (Returns True))"
proof (intro conjI impI)
  assume "\<not> (bid \<in> dom (offers p) \<and> sid \<in> dom (offers p) \<and>
            is_active bid p \<and> is_active sid p \<and>
            bid \<in> set (active_offers p) \<and> sid \<in> set (active_offers p))"
  with assms have "execute_match bid sid q price p = Some (Returns False, release (p\<lparr>lock := True\<rparr>))"
    by (auto simp: execute_match_def with_lock_free is_active_def)
  with assms show "execute_match bid sid q price p = Some (Returns False, p)"
    by (simp add: release_acquired)
next
  assume ok: "bid \<in> dom (offers p) \<and> sid \<in> dom (offers p) \<and>
          is_active bid p \<and> is_active sid p \<and>
          bid \<in> set (active_offers p) \<and> sid \<in> set (active_offers p) \<and>
          bid \<noteq> sid"
  let ?p2 = "sub_sol_amount sid q (sub_sol_amount bid q (p\<lparr>lock := True\<rparr>))"
  have a2: "active_offers ?p2 = active_offers p" by (simp add: sub_sol_amount_def)
  have c1: "fst (complete_if_filled bid ?p2) = Returns ()"
    using ok by (simp add: complete_if_filled_def list_remove_def Let_def set_status_def a2)
  have "sid \<in> set (active_offers (snd (complete_if_filled bid ?p2)))"
    using ok by (simp add: complete_if_filled_def list_remove_def Let_def set_status_def a2)
  then have c2: "fst (complete_if_filled sid (snd (complete_if_filled bid ?p2))) = Returns ()"
    by (simp add: complete_if_filled_def [of sid] list_remove_def Let_def set_status_def)
  from assms ok c1 c2
  show "result_of (execute_match bid sid q price p) = Some (Returns True)"
    by (auto simp: execute_match_def with_lock_free result_of_def is_active_def Let_def
        split: prod.splits outcome.splits)
qed


theorem execute_match_fails_closed_witness:
  "\<not> lock scenario_pool \<and>
   execute_match 1 7 1 100 scenario_pool = Some (Returns False, scenario_pool) \<and>
   result_of (execute_match 1 2 (- 1) 100 scenario_pool) = Some (Returns True)"
  using execute_match_fails_closed [of scenario_pool 1 7 1 100]
    execute_match_fails_closed [of scenario_pool 1 2 "- 1" 100]
  by (simp add: scenario_pool_def is_active_def)

text \<open>
  Claim C3 as stated fails: executing the quantity -1.0 on the scenario book returns
  \<open>True\<close> and changes the book (the BUY offer goes from 2.0 to 3.0).
\<close>

theorem execute_match_nonpositive_quantity_counterexample:
  "result_of (execute_match 1 2 (- 1) 100 scenario_pool) = Some (Returns True) \<and>
   map_option sol_amount (offer_after 1 (execute_match 1 2 (- 1) 100 scenario_pool)) = Some 3 \<and>
   map_option sol_amount (offers scenario_pool 1) = Some 2"
  by (simp add: execute_match_def with_lock_def acquire_def release_def scenario_pool_def
      result_of_def offer_after_def is_active_def sub_sol_amount_def complete_if_filled_def
      is_filled_def set_status_def list_remove_def Let_def)

subsection \<open>The same offer as both legs\<close>

text \<open>
  Claim C10 fails on the code. On the book with the single offer 1 (BUY 1.0),
  \<open>execute_match(1, 1, 1.0, 100.0)\<close> subtracts the quantity twice from the one offer
  (1.0 becomes -1.0), removes it from the active list for the first leg, and raises
  \<open>ValueError\<close> at the removal for the second leg.
\<close>

theorem execute_match_same_id_raises:
  "result_of (execute_match 1 1 1 100 single_pool) = Some (Raises ValueError) \<and>
   map_option sol_amount (offer_after 1 (execute_match 1 1 1 100 single_pool)) = Some (- 1) \<and>
   map_option status (offer_after 1 (execute_match 1 1 1 100 single_pool)) = Some COMPLETED \<and>
   active_after (execute_match 1 1 1 100 single_pool) = Some []"
  by (simp add: execute_match_def with_lock_def acquire_def release_def single_pool_def
      result_of_def offer_after_def active_after_def is_active_def sub_sol_amount_def
      complete_if_filled_def is_filled_def set_status_def list_remove_def Let_def)

text \<open>The book of that call is a reachable one.\<close>

theorem execute_match_same_id_raises_witness:
  "pool_inv single_pool \<and>
   result_of (execute_match 1 1 1 100 single_pool) = Some (Raises ValueError)"
  using execute_match_same_id_raises pool_inv_single by simp

subsection \<open>Offer ids\<close>

lemma next_id_complete_if_filled [simp]: "next_id (snd (complete_if_filled i p)) = next_id p"
  by (simp add: complete_if_filled_def Let_def set_status_def split: sum.splits)

lemma next_id_sub_sol_amount [simp]: "next_id (sub_sol_amount i q p) = next_id p"
  by (simp add: sub_sol_amount_def)

lemma complete_if_filled_frame:
  "complete_if_filled i p = (r, p') \<Longrightarrow> next_id p' = next_id p \<and> lock p' = lock p"
  using next_id_complete_if_filled [of i p] lock_complete_if_filled [of i p] by simp

lemma execute_match_returns:
  assumes "\<not> lock p"
  shows "\<exists>r p'. execute_match b s q price p = Some (r, p') \<and> \<not> lock p' \<and> next_id p' = next_id p"
  using assms
  by (auto simp: execute_match_def with_lock_free release_def
      split: prod.splits outcome.splits dest!: complete_if_filled_frame)

lemma apply_op_step:
  assumes "\<not> lock p" and "x \<noteq> ClearPool"
  shows "\<exists>ids p'. apply_op x p = Some (ids, p') \<and> \<not> lock p' \<and>
           (ids = [next_id p] \<and> next_id p' = next_id p + 1 \<or> ids = [] \<and> next_id p' = next_id p)"
proof (cases x)
  case (AddOffer now t a pr u)
  with assms show ?thesis by (simp add: add_offer_free)
next
  case (CancelOffer i)
  with assms show ?thesis by (simp add: cancel_offer_free set_status_def)
next
  case (ExecuteMatch b s q price)
  from execute_match_returns [OF assms(1), of b s q price] ExecuteMatch show ?thesis by auto
next
  case ClearPool
  with assms show ?thesis by simp
qed

lemma run_ids_increase:
  assumes "\<not> lock p" and "ClearPool \<notin> set ops"
  shows "\<exists>ids p'. run ops p = Some (ids, p') \<and> \<not> lock p' \<and> next_id p \<le> next_id p' \<and>
           sorted_wrt (<) ids \<and> (\<forall>i\<in>set ids. next_id p \<le> i \<and> i < next_id p')"
  using assms
proof (induction ops arbitrary: p)
  case Nil
  then show ?case by simp
next
  case (Cons x xs)
  from Cons.prems have nc: "x \<noteq> ClearPool" and ncs: "ClearPool \<notin> set xs" by auto
  from apply_op_step [OF Cons.prems(1) nc] obtain i1 p1
    where a: "apply_op x p = Some (i1, p1)" and l1: "\<not> lock p1"
      and step: "i1 = [next_id p] \<and> next_id p1 = next_id p + 1 \<or> i1 = [] \<and> next_id p1 = next_id p"
    by blast
  from Cons.IH [OF l1 ncs] obtain i2 p2
    where r: "run xs p1 = Some (i2, p2)" and l2: "\<not> lock p2" and le: "next_id p1 \<le> next_id p2"
      and srt: "sorted_wrt (<) i2" and rng: "\<forall>i\<in>set i2. next_id p1 \<le> i \<and> i < next_id p2"
    by blast
  have run: "run (x # xs) p = Some (i1 @ i2, p2)" using a r by simp
  from step le srt rng
  have "next_id p \<le> next_id p2 \<and> sorted_wrt (<) (i1 @ i2) \<and>
        (\<forall>i\<in>set (i1 @ i2). next_id p \<le> i \<and> i < next_id p2)"
    by (auto simp: sorted_wrt_append)
  with run l2 show ?case by blast
qed

text \<open>
  Claim C6, as the code has it. From a reachable state, every sequence of \<open>add_offer\<close>,
  \<open>cancel_offer\<close> and \<open>execute_match\<close> calls runs to its end, and the ids it hands out
  are strictly increasing and new: none of them is at or below an id of an offer stored
  before. \<open>clear_pool\<close> is excluded, because it sets \<open>next_id\<close> back to 1.
\<close>

theorem ids_increase_without_clear:
  assumes "pool_inv p" and "ClearPool \<notin> set ops"
  shows "\<exists>ids p'. run ops p = Some (ids, p') \<and> sorted_wrt (<) ids \<and>
           (\<forall>i\<in>set ids. next_id p \<le> i \<and> offers p i = None)"
proof -
  from assms(1) have nl: "\<not> lock p" and bi: "book_inv p" by (simp_all add: pool_inv_def)
  from bi have "\<forall>i x. offers p i = Some x \<longrightarrow> i < next_id p"
    by (simp add: book_inv_def)
  then have fresh: "offers p i = None" if "next_id p \<le> i" for i
    using that by (cases "offers p i") force+
  from run_ids_increase [OF nl assms(2)] fresh show ?thesis by blast
qed

theorem ids_increase_without_clear_witness:
  "pool_inv init_pool \<and>
   map_option fst (run [AddOffer 0 ''buy'' 1 100 ''a'', CancelOffer 1,
                        AddOffer 0 ''sell'' 2 50 ''b''] init_pool) = Some [1, 2]"
proof -
  have nc: "ClearPool \<notin> set [AddOffer 0 ''buy'' 1 100 ''a'', CancelOffer 1,
                        AddOffer 0 ''sell'' 2 50 ''b'']" by simp
  have "map_option fst (run [AddOffer 0 ''buy'' 1 100 ''a'', CancelOffer 1,
                        AddOffer 0 ''sell'' 2 50 ''b''] init_pool) = Some [1, 2]"
    using ids_increase_without_clear [OF pool_inv_init nc]
    by (simp add: add_offer_free cancel_offer_free init_pool_def set_status_def)
  with pool_inv_init show ?thesis by simp
qed

text \<open>
  Claim C6 as stated fails: post, clear, post hands out the id 1 twice, for two
  different offers.
\<close>

theorem clear_pool_reuses_ids_counterexample:
  "map_option fst (run [AddOffer 0 ''buy'' 1 100 ''a'', ClearPool,
                        AddOffer 0 ''sell'' 2 50 ''b''] init_pool) = Some [1, 1]"
  by (simp add: add_offer_free clear_pool_def with_lock_free release_def init_pool_def)

subsection \<open>The stored notional\<close>

lemma total_usdc_sub_sol_amount [simp]:
  "map_option total_usdc (offers (sub_sol_amount j q p) i) = map_option total_usdc (offers p i)"
  by (simp add: sub_sol_amount_def option.map_comp comp_def)

lemma total_usdc_set_status [simp]:
  "map_option total_usdc (offers (set_status j st p) i) = map_option total_usdc (offers p i)"
  by (simp add: set_status_def option.map_comp comp_def)

lemma total_usdc_complete_if_filled:
  "map_option total_usdc (offers (snd (complete_if_filled j p)) i) = map_option total_usdc (offers p i)"
  by (simp add: complete_if_filled_def Let_def split: sum.splits)

lemma total_usdc_complete_if_filled_frame:
  "complete_if_filled j p = (r, p') \<Longrightarrow>
     map_option total_usdc (offers p' i) = map_option total_usdc (offers p i)"
  using total_usdc_complete_if_filled [of j p i] by simp

lemma total_usdc_execute_match:
  assumes "\<not> lock p"
  shows "map_option total_usdc (offer_after i (execute_match b s q price p)) =
         map_option total_usdc (offers p i)"
  using assms
  by (auto simp: execute_match_def with_lock_free release_def offer_after_def
      split: prod.splits outcome.splits dest!: total_usdc_complete_if_filled_frame [where i = i])

text \<open>
  Claim C8, as the code has it. \<open>total_usdc\<close> is the amount times the price when the
  offer is posted, and no later call computes it again: \<open>add_offer\<close> leaves the other
  offers as they are, and \<open>execute_match\<close> and \<open>cancel_offer\<close> leave the \<open>total_usdc\<close> of
  every offer as it was, also when \<open>execute_match\<close> changes the amount.
\<close>

theorem total_usdc_fixed_at_post:
  assumes "\<not> lock p"
  shows "map_option total_usdc (offer_after (next_id p) (add_offer now otype amount price user p))
           = Some (amount * price) \<and>
         (\<forall>i. i \<noteq> next_id p \<longrightarrow>
            offer_after i (add_offer now otype amount price user p) = offers p i) \<and>
         (\<forall>i. map_option total_usdc (offer_after i (execute_match bid sid q mprice p))
            = map_option total_usdc (offers p i)) \<and>
         (\<forall>i. map_option total_usdc (offer_after i (cancel_offer j p))
            = map_option total_usdc (offers p i))"
proof (intro conjI allI impI)
  show "map_option total_usdc (offer_after (next_id p) (add_offer now otype amount price user p))
           = Some (amount * price)"
    using assms by (simp add: add_offer_free offer_after_def)
next
  fix i assume "i \<noteq> next_id p"
  with assms show "offer_after i (add_offer now otype amount price user p) = offers p i"
    by (simp add: add_offer_free offer_after_def)
next
  fix i
  show "map_option total_usdc (offer_after i (execute_match bid sid q mprice p))
            = map_option total_usdc (offers p i)"
    using assms by (rule total_usdc_execute_match)
next
  fix i
  show "map_option total_usdc (offer_after i (cancel_offer j p))
            = map_option total_usdc (offers p i)"
    using assms total_usdc_set_status [of j CANCELLED p i]
    by (simp add: cancel_offer_free offer_after_def set_status_def)
qed

theorem total_usdc_fixed_at_post_witness:
  "\<not> lock scenario_pool \<and>
   map_option total_usdc (offer_after 3 (add_offer 0 ''buy'' 4 25 ''c'' scenario_pool)) = Some 100 \<and>
   map_option total_usdc (offer_after 1 (execute_match 1 2 (3 / 2) 100 scenario_pool)) = Some 202"
  using total_usdc_fixed_at_post [of scenario_pool 0 "''buy''" 4 25 "''c''" 1 2 "3 / 2" 100 1]
  by (simp add: scenario_pool_def)

text \<open>
  Claim C8 as stated fails: after executing 1.5 on the scenario book the BUY offer has
  the amount 0.5 at the price 101.0, and its \<open>total_usdc\<close> is still 202.0, not 50.5.
\<close>

theorem total_usdc_stale_counterexample:
  "map_option sol_amount (offer_after 1 (execute_match 1 2 (3 / 2) 100 scenario_pool)) = Some (1 / 2) \<and>
   map_option price_per_sol (offer_after 1 (execute_match 1 2 (3 / 2) 100 scenario_pool)) = Some 101 \<and>
   map_option total_usdc (offer_after 1 (execute_match 1 2 (3 / 2) 100 scenario_pool)) = Some 202"
  by (simp add: execute_match_def with_lock_def acquire_def release_def scenario_pool_def
      offer_after_def is_active_def sub_sol_amount_def complete_if_filled_def
      is_filled_def set_status_def list_remove_def Let_def)

subsection \<open>Operations that take the lock twice\<close>

text \<open>
  Claim C7 fails on the code. \<open>simulate_matching\<close> and \<open>get_pool_stats\<close> hold the lock
  when they call \<open>get_offers_by_type\<close> and \<open>get_active_offers\<close>, which wait for the same
  lock. In every state of the pool neither of the two returns.
\<close>

theorem nested_lock_never_returns:
  "simulate_matching now p = None \<and> get_pool_stats p = None"
  by (cases "lock p")
     (simp_all add: simulate_matching_def get_pool_stats_def get_offers_by_type_def
        get_active_offers_def with_lock_def acquire_def)

text \<open>The operations that take the lock once return whenever the lock is free.\<close>

lemma single_lock_operations_return:
  assumes "\<not> lock p"
  shows "add_offer now t a pr u p \<noteq> None" and "cancel_offer i p \<noteq> None"
    and "execute_match b s q price p \<noteq> None" and "clear_pool p \<noteq> None"
    and "get_active_offers p \<noteq> None" and "get_offer i p \<noteq> None"
    and "get_offers_by_type t p \<noteq> None"
  using assms
  by (simp_all add: add_offer_free cancel_offer_free execute_match_def clear_pool_def
      get_active_offers_def get_offer_def get_offers_by_type_def with_lock_free
      split: prod.splits outcome.splits)

text \<open>
  Claim C4 fails on the code, for the same reason. On the scenario book (BUY 2.0 at
  101.0, SELL 1.5 at 99.0), where one candidate is expected, \<open>simulate_matching\<close> does not
  return any list.
\<close>

theorem simulate_matching_scenario_blocks:
  "result_of (simulate_matching 0 scenario_pool) = None \<and>
   match_loop 0
     (py_sort_reverse price_per_sol
        (filter (\<lambda>x. offer_type x = upper ''BUY'')
           (List.map_filter (offers scenario_pool) (active_offers scenario_pool))))
     (py_sort price_per_sol
        (filter (\<lambda>x. offer_type x = upper ''SELL'')
           (List.map_filter (offers scenario_pool) (active_offers scenario_pool)))) =
   [\<lparr>buy_id = 1, sell_id = 2, match_amount = 3 / 2, match_price = 100, buy_price = 101,
     sell_price = 99, spread = 2, match_total_usdc = 150, match_timestamp = 0\<rparr>]"
  by (simp add: simulate_matching_def get_offers_by_type_def with_lock_def acquire_def
      result_of_def scenario_pool_def match_loop_def py_sort_reverse_def py_sort_def
      List.map_filter_def make_match_def Let_def upper_def upper_char_def)

text \<open>
  What the code between the two lock operations computes, if it is run on its own: the
  BUY offers in descending and the SELL offers in ascending order of price, offers of
  equal price in ascending order of id, and one candidate for every pair that crosses.
\<close>

lemma py_sort_ascending: "sorted (map k (py_sort k xs))"
  by (simp add: py_sort_def)

lemma py_sort_stable: "filter (\<lambda>y. k y = c) (py_sort k xs) = filter (\<lambda>y. k y = c) xs"
  by (simp add: py_sort_def sort_key_stable)

lemma py_sort_reverse_descending: "sorted (rev (map k (py_sort_reverse k xs)))"
  by (simp add: py_sort_reverse_def rev_map)

lemma py_sort_reverse_stable:
  "filter (\<lambda>y. k y = c) (py_sort_reverse k xs) = filter (\<lambda>y. k y = c) xs"
  by (simp add: py_sort_reverse_def sort_key_stable flip: rev_filter)

lemma py_sort_set [simp]: "set (py_sort k xs) = set xs" "set (py_sort_reverse k xs) = set xs"
  by (simp_all add: py_sort_def py_sort_reverse_def)

lemma active_ids_ascending:
  assumes "book_inv p"
  shows "sorted_wrt (<) (map offer_id (filter P (List.map_filter (offers p) (active_offers p))))"
proof -
  have ids: "\<forall>i x. offers p i = Some x \<longrightarrow> offer_id x = i"
    using assms by (simp add: book_inv_def)
  have "map offer_id (List.map_filter (offers p) xs) = filter (\<lambda>i. offers p i \<noteq> None) xs" for xs
    using ids by (induction xs) (auto simp: List.map_filter_def)
  moreover have "sorted_wrt (<) (filter (\<lambda>i. offers p i \<noteq> None) (active_offers p))"
    using assms by (simp add: book_inv_def sorted_wrt_filter)
  ultimately have "sorted_wrt (<) (map offer_id (List.map_filter (offers p) (active_offers p)))"
    by simp
  then have "sorted_wrt (\<lambda>x y. offer_id x < offer_id y) (List.map_filter (offers p) (active_offers p))"
    by (simp add: sorted_wrt_map)
  then have "sorted_wrt (\<lambda>x y. offer_id x < offer_id y) (filter P (List.map_filter (offers p) (active_offers p)))"
    by (rule sorted_wrt_filter)
  then show ?thesis by (simp add: sorted_wrt_map)
qed

lemma buy_ties_by_ascending_id:
  assumes "book_inv p"
  shows "sorted_wrt (<) (map offer_id (filter (\<lambda>y. price_per_sol y = c)
           (py_sort_reverse price_per_sol
              (filter (\<lambda>x. offer_type x = upper ''BUY'')
                 (List.map_filter (offers p) (active_offers p))))))"
  using active_ids_ascending [OF assms, of "\<lambda>x. offer_type x = upper ''BUY'' \<and> price_per_sol x = c"]
  by (simp add: py_sort_reverse_stable conj_commute)

lemma sell_ties_by_ascending_id:
  assumes "book_inv p"
  shows "sorted_wrt (<) (map offer_id (filter (\<lambda>y. price_per_sol y = c)
           (py_sort price_per_sol
              (filter (\<lambda>x. offer_type x = upper ''SELL'')
                 (List.map_filter (offers p) (active_offers p))))))"
  using active_ids_ascending [OF assms, of "\<lambda>x. offer_type x = upper ''SELL'' \<and> price_per_sol x = c"]
  by (simp add: py_sort_stable conj_commute)

lemma match_loop_pairs:
  "map (\<lambda>m. (buy_id m, sell_id m)) (match_loop now bs ss) =
     concat (map (\<lambda>b. map (\<lambda>s. (offer_id b, offer_id s))
                          (filter (\<lambda>s. price_per_sol s \<le> price_per_sol b) ss)) bs)"
  by (simp add: match_loop_def map_concat comp_def make_match_def Let_def)

lemma match_loop_amount:
  "m \<in> set (match_loop now bs ss) \<Longrightarrow>
     \<exists>b\<in>set bs. \<exists>s\<in>set ss. price_per_sol s \<le> price_per_sol b \<and> m = make_match now b s"
  by (auto simp: match_loop_def)

section \<open>Properties of the monitor\<close>

lemma monitor_loop_append:
  "monitor_loop (xs @ ys) m = monitor_loop ys (monitor_loop xs m)"
  by (induction xs arbitrary: m) simp_all

lemma price_state_fetch_market [simp]:
  "last_price (fetch_market r t m) = last_price m"
  "last_update (fetch_market r t m) = last_update m"
  "session_last_jupiter_price (fetch_market r t m) = session_last_jupiter_price m"
  "session_last_update_time (fetch_market r t m) = session_last_update_time m"
  by (simp_all add: fetch_market_def split: option.splits market_result.splits)

lemma price_state_count_cycle [simp]:
  "last_price (count_cycle m) = last_price m"
  "last_update (count_cycle m) = last_update m"
  "session_last_jupiter_price (count_cycle m) = session_last_jupiter_price m"
  "session_last_update_time (count_cycle m) = session_last_update_time m"
  by (simp_all add: count_cycle_def)

lemma failed_cycle_keeps_price_state:
  assumes "fetch_failed c"
  shows "last_price (monitor_cycle c m) = last_price m"
    and "last_update (monitor_cycle c m) = last_update m"
    and "session_last_jupiter_price (monitor_cycle c m) = session_last_jupiter_price m"
    and "session_last_update_time (monitor_cycle c m) = session_last_update_time m"
  using assms
  by (simp_all add: monitor_cycle_def fetch_failed_def split: quote_result.splits)

lemma failed_cycles_keep_price_state:
  assumes "\<forall>c\<in>set cs. fetch_failed c"
  shows "last_price (monitor_loop cs m) = last_price m \<and>
         last_update (monitor_loop cs m) = last_update m \<and>
         session_last_jupiter_price (monitor_loop cs m) = session_last_jupiter_price m \<and>
         session_last_update_time (monitor_loop cs m) = session_last_update_time m"
  using assms
  by (induction cs arbitrary: m) (simp_all add: failed_cycle_keeps_price_state)

lemma successful_cycle_publishes:
  "quote c = Quote x \<Longrightarrow> last_price (monitor_cycle c m) = Some x \<and>
     last_update (monitor_cycle c m) = Some (clock c)"
  by (simp add: monitor_cycle_def publish_price_def)

text \<open>
  Claim C9. Iterations of the monitor loop in which the quote fails (it is \<open>None\<close>, or
  the call raises) leave \<open>last_price\<close>, \<open>last_update\<close> and their copies in the session
  state as they were, however many there are. So after an iteration with a quote of
  price \<open>x\<close>, followed by any number of failed iterations, \<open>get_current_price\<close> still
  returns \<open>x\<close>.
\<close>

theorem failed_fetch_keeps_last_price:
  assumes "\<forall>c\<in>set fails. fetch_failed c"
  shows "last_price (monitor_loop fails m) = last_price m \<and>
         last_update (monitor_loop fails m) = last_update m \<and>
         session_last_jupiter_price (monitor_loop fails m) = session_last_jupiter_price m \<and>
         session_last_update_time (monitor_loop fails m) = session_last_update_time m \<and>
         get_current_price (monitor_loop fails m) = get_current_price m \<and>
         (quote c = Quote x \<longrightarrow>
            get_current_price (monitor_loop (before @ [c] @ fails) m) = Some x)"
proof -
  note keep = failed_cycles_keep_price_state [OF assms]
  have "get_current_price (monitor_loop (before @ [c] @ fails) m) = Some x" if "quote c = Quote x"
    using that keep [of "monitor_cycle c (monitor_loop before m)"]
      successful_cycle_publishes [of c x "monitor_loop before m"]
    by (simp add: monitor_loop_append get_current_price_def)
  with keep [of m] show ?thesis by (simp add: get_current_price_def)
qed

theorem failed_fetch_keeps_last_price_witness:
  "fetch_failed \<lparr>quote = QuoteNone, clock = 15, market = MarketNone\<rparr> \<and>
   fetch_failed \<lparr>quote = QuoteRaises, clock = 30, market = MarketNone\<rparr> \<and>
   fetch_failed \<lparr>quote = QuoteNone, clock = 45, market = MarketNone\<rparr> \<and>
   get_current_price (monitor_loop
     [\<lparr>quote = Quote 100, clock = 0, market = MarketNone\<rparr>,
      \<lparr>quote = QuoteNone, clock = 15, market = MarketNone\<rparr>,
      \<lparr>quote = QuoteRaises, clock = 30, market = MarketNone\<rparr>,
      \<lparr>quote = QuoteNone, clock = 45, market = MarketNone\<rparr>] init_monitor) = Some 100"
proof -
  have f: "\<forall>c\<in>set [\<lparr>quote = QuoteNone, clock = 15, market = MarketNone\<rparr>,
               \<lparr>quote = QuoteRaises, clock = 30, market = MarketNone\<rparr>,
               \<lparr>quote = QuoteNone, clock = 45, market = MarketNone\<rparr>]. fetch_failed c"
    by (simp add: fetch_failed_def)
  from failed_fetch_keeps_last_price [OF f, of init_monitor
      "\<lparr>quote = Quote 100, clock = 0, market = MarketNone\<rparr>" 100 "[]"] f
  show ?thesis by simp
qed

section \<open>Properties of the score\<close>

text \<open>
  Claim C5 fails on the code. For an OTC BUY price of 120 against a reference price of
  100, a volume of 0.5 and no price impact, the net spread is 20, the base score is
  capped at 100, the volume factor for small orders is 1.1, and the score returned by
  \<open>calculate_arbitrage_score\<close> is 110.
\<close>

theorem calculate_arbitrage_score_above_100:
  "score_of (calculate_arbitrage_score 120 100 ''BUY'' (1 / 2) (Some 0)) = Some 110"
  by (simp add: calculate_arbitrage_score_def score_of_def base_score_def volume_factor_def
      py_round_def round_half_even_def Let_def)

text \<open>
  The rest of the claim holds on the code: the score does not decrease when the net
  spread grows, it is never below 0 nor above 110, and it is at most 100 for a volume of
  at least 1. The score of the scanner in app.py stays within 0 and 100.
\<close>

lemma base_score_range: "0 \<le> base_score n \<and> base_score n \<le> 100"
  by (simp add: base_score_def)

lemma base_score_mono: "n \<le> n' \<Longrightarrow> base_score n \<le> base_score n'"
  by (simp add: base_score_def min_def max_def)

lemma round_half_even_bounds:
  "\<lfloor>y\<rfloor> \<le> round_half_even y \<and> round_half_even y \<le> \<lfloor>y\<rfloor> + 1"
  by (simp add: round_half_even_def Let_def)

lemma round_half_even_mono:
  assumes "x \<le> y"
  shows "round_half_even x \<le> round_half_even y"
proof (cases "\<lfloor>x\<rfloor> = \<lfloor>y\<rfloor>")
  case True
  with assms show ?thesis
    by (auto simp: round_half_even_def Let_def)
next
  case False
  with assms have "\<lfloor>x\<rfloor> < \<lfloor>y\<rfloor>" using floor_mono [of x y] by linarith
  with round_half_even_bounds [of x] round_half_even_bounds [of y] show ?thesis by linarith
qed

lemma py_round_mono: "x \<le> y \<Longrightarrow> py_round x n \<le> py_round y n"
  by (simp add: py_round_def divide_right_mono round_half_even_mono mult_right_mono)

lemma round_half_even_int [simp]: "round_half_even (of_int k) = k"
  by (simp add: round_half_even_def)

lemma py_round_range:
  assumes "of_int lo \<le> x" and "x \<le> of_int hi"
  shows "of_int lo \<le> py_round x n \<and> py_round x n \<le> of_int hi"
proof -
  have "py_round (of_int k) n = of_int k" for k
  proof -
    have "of_int k * 10 ^ n = (of_int (k * 10 ^ n) :: real)" by simp
    then have "round_half_even (of_int k * 10 ^ n) = k * 10 ^ n"
      by (simp only: round_half_even_int)
    then show ?thesis by (simp add: py_round_def)
  qed
  with py_round_mono [OF assms(1), of n] py_round_mono [OF assms(2), of n] show ?thesis by simp
qed

lemma score_monotone_in_net_spread:
  "n \<le> n' \<Longrightarrow>
     py_round (base_score n * volume_factor v) 2 \<le> py_round (base_score n' * volume_factor v) 2"
  by (rule py_round_mono) (simp add: base_score_mono mult_right_mono volume_factor_def)

lemma scanner_score_range: "0 \<le> scanner_score n \<and> scanner_score n \<le> 100"
  by (simp add: scanner_score_def)

lemma scanner_score_mono: "n \<le> n' \<Longrightarrow> scanner_score n \<le> scanner_score n'"
  by (simp add: scanner_score_def min_def max_def)

lemma calculate_arbitrage_score_range:
  assumes "calculate_arbitrage_score otc jup t v aq = Inr a"
  shows "0 \<le> score a \<and> score a \<le> 110 \<and> (1 \<le> v \<longrightarrow> score a \<le> 100)"
proof -
  let ?n = "(if t = ''BUY'' then ((otc - jup) / jup) * 100 else ((jup - otc) / jup) * 100)
            - (case aq of None \<Rightarrow> 0 | Some i \<Rightarrow> i)"
  from assms have sc: "score a = py_round (base_score ?n * volume_factor v) 2"
    by (auto simp: calculate_arbitrage_score_def Let_def split: if_splits)
  have b: "0 \<le> base_score ?n" "base_score ?n \<le> 100" using base_score_range [of ?n] by simp_all
  have "of_int 0 \<le> base_score ?n * volume_factor v" "base_score ?n * volume_factor v \<le> of_int 110"
    using b by (auto simp: volume_factor_def)
  from py_round_range [OF this, of 2] have r1: "0 \<le> score a \<and> score a \<le> 110" by (simp add: sc)
  have "1 \<le> v \<Longrightarrow> base_score ?n * volume_factor v \<le> of_int 100"
    using b by (auto simp: volume_factor_def)
  from py_round_range [OF \<open>of_int 0 \<le> base_score ?n * volume_factor v\<close> this, of 2]
  have "1 \<le> v \<Longrightarrow> score a \<le> 100" by (simp add: sc)
  with r1 show ?thesis by simp
qed

end
